theory Spec2Isabelle
  imports Main "HOL-Library.Char_ord" "HOL-Library.List_Lexorder"
begin

section \<open>Python strings\<close>

text \<open>
  A Python \<open>str\<close> is a sequence of code points. It is modelled as a \<open>string\<close>, every
  \<open>char\<close> standing for one code point below 256; the functions that do not look at
  single characters are polymorphic in the element type. \<open>Char_ord\<close> and
  \<open>List_Lexorder\<close> order strings as Python compares them: lexicographically by code
  point.
\<close>

definition str_startswith :: "'a list \<Rightarrow> 'a list \<Rightarrow> bool" where
  \<comment> \<open>\<open>s.startswith(p)\<close>\<close>
  "str_startswith s p = (take (length p) s = p)"

definition str_endswith :: "'a list \<Rightarrow> 'a list \<Rightarrow> bool" where
  \<comment> \<open>\<open>s.endswith(p)\<close>\<close>
  "str_endswith s p = (length p \<le> length s \<and> drop (length s - length p) s = p)"

fun str_in :: "'a list \<Rightarrow> 'a list \<Rightarrow> bool" where
  \<comment> \<open>\<open>sub in s\<close>: \<open>sub\<close> starts at some position of \<open>s\<close>\<close>
  "str_in sub [] = (sub = [])"
| "str_in sub (c # cs) = (str_startswith (c # cs) sub \<or> str_in sub cs)"

definition isspace :: "char \<Rightarrow> bool" where
  \<comment> \<open>the code points below 256 that \<open>str.isspace\<close> accepts: TAB to CR, FS to US,
      the space, NEL and the no-break space\<close>
  "isspace c = (let n = (of_char c :: nat) in
     (9 \<le> n \<and> n \<le> 13) \<or> (28 \<le> n \<and> n \<le> 32) \<or> n = 133 \<or> n = 160)"

definition str_strip :: "string \<Rightarrow> string" where
  \<comment> \<open>\<open>s.strip()\<close>: whitespace removed at both ends\<close>
  "str_strip s = rev (dropWhile isspace (rev (dropWhile isspace s)))"

definition char_lower :: "char \<Rightarrow> char" where
  \<comment> \<open>the lower-case mapping of the code points below 256: A to Z, and the
      Latin-1 capitals but the multiplication sign\<close>
  "char_lower c = (let n = (of_char c :: nat) in
     if (65 \<le> n \<and> n \<le> 90) \<or> (192 \<le> n \<and> n \<le> 222 \<and> n \<noteq> 215)
     then char_of (n + 32) else c)"

definition str_lower :: "string \<Rightarrow> string" where
  "str_lower s = map char_lower s"

text \<open>
  \<open>s.split(sep)\<close> scans from the left and cuts at every occurrence of \<open>sep\<close> it
  meets, resuming after the occurrence. \<open>cur\<close> is the piece being collected. Python
  raises \<open>ValueError\<close> on an empty separator; every separator of the program is a
  non-empty literal, and the guard \<open>sep \<noteq> []\<close> keeps the scan total.
\<close>

function split_from :: "'a list \<Rightarrow> 'a list \<Rightarrow> 'a list \<Rightarrow> 'a list list" where
  "split_from sep cur [] = [cur]"
| "split_from sep cur (c # cs) =
     (if sep \<noteq> [] \<and> str_startswith (c # cs) sep
      then cur # split_from sep [] (drop (length sep) (c # cs))
      else split_from sep (cur @ [c]) cs)"
  by pat_completeness auto
termination
  by (relation "measure (\<lambda>(sep, cur, s). length s)") (auto simp: str_startswith_def)

definition str_split :: "'a list \<Rightarrow> 'a list \<Rightarrow> 'a list list" where
  "str_split s sep = split_from sep [] s"

definition unbordered :: "'a list \<Rightarrow> bool" where
  \<comment> \<open>no proper non-empty prefix of \<open>sep\<close> is also a suffix of it: two occurrences
      of such a separator never overlap\<close>
  "unbordered sep =
     list_all (\<lambda>k. take k sep \<noteq> drop (length sep - k) sep) [1..<length sep]"


section \<open>pages_to_urls.py\<close>

definition normalize_url :: "string \<Rightarrow> string" where
  \<comment> \<open>\<open>normalize\<close> of the source\<close>
  "normalize_url raw =
     (let raw = str_strip raw in
      if str_startswith raw ''//'' then ''https:'' @ raw else raw)"

text \<open>
  A parsed document. A \<open>Tag\<close> has its name, its attribute dictionary and its
  contents; text and comments are the nodes the source skips as
  \<open>NavigableString\<close> or \<open>Comment\<close>. The soup is the list of the top-level nodes.
\<close>

datatype node =
    Tag string "(string \<times> string) list" "node list"
  | NavigableString string
  | Comment string

type_synonym soup = "node list"

definition attr_get :: "(string \<times> string) list \<Rightarrow> string \<Rightarrow> string option" where
  \<comment> \<open>\<open>tag.get(key)\<close>\<close>
  "attr_get attrs key = map_of attrs key"

definition attr_get_default :: "(string \<times> string) list \<Rightarrow> string \<Rightarrow> string \<Rightarrow> string" where
  \<comment> \<open>\<open>tag.get(key, default)\<close>\<close>
  "attr_get_default attrs key dflt = (case map_of attrs key of None \<Rightarrow> dflt | Some v \<Rightarrow> v)"

fun next_tag_sibling :: "node list \<Rightarrow> node option" where
  \<comment> \<open>the loop \<open>while isinstance(sib, (NavigableString, Comment)): sib = sib.next_sibling\<close>
      over the nodes that follow a tag in its parent\<close>
  "next_tag_sibling [] = None"
| "next_tag_sibling (Tag name attrs contents # rest) = Some (Tag name attrs contents)"
| "next_tag_sibling (NavigableString s # rest) = next_tag_sibling rest"
| "next_tag_sibling (Comment s # rest) = next_tag_sibling rest"

definition sibling_is_date_meta :: "node option \<Rightarrow> bool" where
  \<comment> \<open>\<open>getattr(sib, 'name', None) == 'meta' and
      sib.get('itemprop') in ('datePublished', 'dateModified')\<close>\<close>
  "sibling_is_date_meta sib =
     (case sib of
        Some (Tag name attrs contents) \<Rightarrow>
          name = ''meta'' \<and>
          (attr_get attrs ''itemprop'' = Some ''datePublished'' \<or>
           attr_get attrs ''itemprop'' = Some ''dateModified'')
      | _ \<Rightarrow> False)"

text \<open>
  The state of the extraction loop: the shared set \<open>seen\<close>, mutated in place by the
  source, and the list \<open>out\<close>.
\<close>

type_synonym extraction = "string set \<times> string list"

definition loop_body :: "string \<Rightarrow> (string \<times> string) list \<Rightarrow> node list \<Rightarrow> extraction \<Rightarrow> extraction" where
  \<comment> \<open>one turn of \<open>for tag in soup.find_all(True)\<close>, for the tag of that name and
      those attributes, followed in its parent by \<open>sibs\<close>\<close>
  "loop_body name attrs sibs st =
     (case st of (seen, out) \<Rightarrow>
      if name = ''meta'' \<and> attr_get attrs ''itemprop'' = Some ''url'' then
        (let raw = str_strip (attr_get_default attrs ''content'' '''') in
         if raw \<noteq> [] then
           (if sibling_is_date_meta (next_tag_sibling sibs) then
              (let url = normalize_url raw in
               if url \<notin> seen then (insert url seen, out @ [url]) else (seen, out))
            else (seen, out))
         else (seen, out))
      else if name = ''a'' \<and> attr_get attrs ''target'' = Some ''_blank''
              \<and> attr_get attrs ''data-za-detail-view-element_name'' = Some ''Title'' then
        (let raw = str_strip (attr_get_default attrs ''href'' '''') in
         if raw \<noteq> [] then
           (let url = normalize_url raw in
            if url \<notin> seen then (insert url seen, out @ [url]) else (seen, out))
         else (seen, out))
      else (seen, out))"

text \<open>
  \<open>soup.find_all(True)\<close> visits every tag in document order: a tag, then the tags
  inside it, then those that follow it.
\<close>

fun visit :: "node \<Rightarrow> node list \<Rightarrow> extraction \<Rightarrow> extraction"
  and visit_all :: "node list \<Rightarrow> extraction \<Rightarrow> extraction" where
  "visit (Tag name attrs contents) sibs st = visit_all contents (loop_body name attrs sibs st)"
| "visit (NavigableString s) sibs st = st"
| "visit (Comment s) sibs st = st"
| "visit_all [] st = st"
| "visit_all (n # ns) st = visit_all ns (visit n ns st)"

definition extract_urls_from_soup :: "soup \<Rightarrow> string set \<Rightarrow> string list \<times> string set" where
  \<comment> \<open>the returned list \<open>out\<close>, and \<open>seen\<close> as the call leaves it\<close>
  "extract_urls_from_soup soup seen =
     (case visit_all soup (seen, []) of (seen', out) \<Rightarrow> (out, seen'))"

fun merge_files :: "(string \<times> soup) list \<Rightarrow> string set \<Rightarrow> string list \<Rightarrow> string list" where
  \<comment> \<open>the loop over the files of one category, \<open>merged += result\<close>\<close>
  "merge_files [] seen merged = merged"
| "merge_files ((fn, soup) # rest) seen merged =
     (case extract_urls_from_soup soup seen of
        (result, seen') \<Rightarrow> merge_files rest seen' (merged @ result))"

definition html_files :: "(string \<times> soup) list \<Rightarrow> (string \<times> soup) list" where
  \<comment> \<open>\<open>sorted(f for f in os.listdir(cat_path) if f.lower().endswith('.html'))\<close>, each
      name with the document parsed from that file\<close>
  "html_files listing =
     sort_key fst (filter (\<lambda>(fn, soup). str_endswith (str_lower fn) ''.html'') listing)"

definition category_urls :: "(string \<times> soup) list \<Rightarrow> string list" where
  \<comment> \<open>the list \<open>merged\<close> that \<open>main\<close> writes for one category, whose directory
      lists \<open>listing\<close>\<close>
  "category_urls listing = merge_files (html_files listing) {} []"


subsection \<open>What a category should list\<close>

text \<open>
  To state the order of the list of a category: \<open>document_urls\<close> is every URL that
  one of the two patterns finds in a document, normalized, in document order and
  with its repetitions; \<open>first_occurrences\<close> keeps of a list the entries at the
  positions where the entry occurs for the first time; \<open>add_url\<close> is the step
  \<open>if url not in seen: seen.add(url); out.append(url)\<close> of the source.
\<close>

definition tag_urls :: "string \<Rightarrow> (string \<times> string) list \<Rightarrow> node list \<Rightarrow> string list" where
  "tag_urls name attrs sibs =
     (if name = ''meta'' \<and> attr_get attrs ''itemprop'' = Some ''url'' then
        (let raw = str_strip (attr_get_default attrs ''content'' '''') in
         if raw \<noteq> [] \<and> sibling_is_date_meta (next_tag_sibling sibs)
         then [normalize_url raw] else [])
      else if name = ''a'' \<and> attr_get attrs ''target'' = Some ''_blank''
              \<and> attr_get attrs ''data-za-detail-view-element_name'' = Some ''Title'' then
        (let raw = str_strip (attr_get_default attrs ''href'' '''') in
         if raw \<noteq> [] then [normalize_url raw] else [])
      else [])"

fun node_urls :: "node \<Rightarrow> node list \<Rightarrow> string list"
  and document_urls :: "node list \<Rightarrow> string list" where
  "node_urls (Tag name attrs contents) sibs = tag_urls name attrs sibs @ document_urls contents"
| "node_urls (NavigableString s) sibs = []"
| "node_urls (Comment s) sibs = []"
| "document_urls [] = []"
| "document_urls (n # ns) = node_urls n ns @ document_urls ns"

definition first_occurrences :: "'a list \<Rightarrow> 'a list" where
  "first_occurrences xs =
     map (\<lambda>i. xs ! i) (filter (\<lambda>i. xs ! i \<notin> set (take i xs)) [0..<length xs])"

definition add_url :: "extraction \<Rightarrow> string \<Rightarrow> extraction" where
  "add_url st url =
     (case st of (seen, out) \<Rightarrow>
        if url \<notin> seen then (insert url seen, out @ [url]) else (seen, out))"


section \<open>batch_download.py\<close>

subsection \<open>Configuration\<close>

definition COOKIES_FILE :: string where
  "COOKIES_FILE = ''cookies.txt''"

definition EXTRACTED_DIR :: string where
  \<comment> \<open>\<open>BASE_DIR / "markdown"\<close>\<close>
  "EXTRACTED_DIR = ''zhihu/markdown''"

definition TEMP_DIR :: string where
  \<comment> \<open>\<open>BASE_DIR / "temp_zips"\<close>\<close>
  "TEMP_DIR = ''zhihu/temp_zips''"

subsection \<open>Exceptions\<close>

text \<open>
  What a call can raise: an instance of \<open>Exception\<close> with the text \<open>str(e)\<close>, the
  \<open>SystemExit\<close> of \<open>sys.exit(code)\<close>, or another \<open>BaseException\<close> that is not an
  \<open>Exception\<close> (\<open>KeyboardInterrupt\<close>, \<open>GeneratorExit\<close>). A call returns or raises.
\<close>

datatype exc = Exception string | SystemExit nat | BaseException string

datatype 'a result = Return 'a | Raise exc

definition exit_status :: "'a result \<Rightarrow> nat" where
  \<comment> \<open>the exit status of the interpreter when the main program ends so: an uncaught
      exception ends it with status 1\<close>
  "exit_status r =
     (case r of Return v \<Rightarrow> 0 | Raise (SystemExit code) \<Rightarrow> code | Raise e \<Rightarrow> 1)"

subsection \<open>The output directory\<close>

text \<open>
  What a path names: a file, or a directory with its entries by name. Symbolic links
  and unreadable directories are left out.
\<close>

datatype fsnode = File | Dir "(string \<times> fsnode) list"

fun is_dir :: "fsnode \<Rightarrow> bool" where
  "is_dir File = False"
| "is_dir (Dir entries) = True"

definition path_join :: "string \<Rightarrow> string \<Rightarrow> string" where
  \<comment> \<open>\<open>os.path.join(dirpath, name)\<close> of POSIX, for an entry name (which has no slash)\<close>
  "path_join dirpath name =
     (if dirpath = [] \<or> last dirpath = CHR ''/'' then dirpath @ name else dirpath @ ''/'' @ name)"

text \<open>
  \<open>os.walk(dirpath)\<close>, from the top down: the triple of a directory, then the walks of its
  subdirectories in the order listed. A path that is no directory gives nothing
  (the error of listing it is ignored).
\<close>

fun walk :: "string \<Rightarrow> fsnode \<Rightarrow> (string \<times> string list \<times> string list) list"
  and walk_subdirs :: "string \<Rightarrow> (string \<times> fsnode) list \<Rightarrow> (string \<times> string list \<times> string list) list" where
  "walk dirpath File = []"
| "walk dirpath (Dir entries) =
     (dirpath, map fst (filter (\<lambda>(name, child). is_dir child) entries),
           map fst (filter (\<lambda>(name, child). \<not> is_dir child) entries))
     # walk_subdirs dirpath entries"
| "walk_subdirs dirpath [] = []"
| "walk_subdirs dirpath ((name, child) # rest) =
     (if is_dir child then walk (path_join dirpath name) child else []) @ walk_subdirs dirpath rest"

definition os_walk :: "string \<Rightarrow> fsnode option \<Rightarrow> (string \<times> string list \<times> string list) list" where
  \<comment> \<open>\<open>tree\<close> is what the path \<open>dirpath\<close> names, \<open>None\<close> when nothing has that name\<close>
  "os_walk dirpath tree = (case tree of None \<Rightarrow> [] | Some t \<Rightarrow> walk dirpath t)"

subsection \<open>Identifiers and the check of the output directory\<close>

definition get_article_id :: "string \<Rightarrow> string option" where
  "get_article_id url =
     (if str_in ''zhuanlan.zhihu.com/p/'' url
      then Some (hd (str_split (last (str_split url ''zhuanlan.zhihu.com/p/'')) ''/''))
      else if str_in ''question'' url \<and> str_in ''answer'' url
      then Some (hd (str_split (last (str_split url ''answer/'')) ''/''))
      else if str_in ''zvideo'' url
      then Some (hd (str_split (last (str_split url ''zvideo/'')) ''/''))
      else if str_in ''column'' url
      then Some (hd (str_split (last (str_split url ''column/'')) ''/''))
      else None)"

fun article_exists_loop :: "string \<Rightarrow> (string \<times> string list \<times> string list) list \<Rightarrow> bool" where
  \<comment> \<open>\<open>for root, dirs, files in ...: if article_id in root: return True\<close>, then
      \<open>return False\<close>\<close>
  "article_exists_loop article_id [] = False"
| "article_exists_loop article_id ((root, dirs, files) # rest) =
     (if str_in article_id root then True else article_exists_loop article_id rest)"

definition article_exists :: "string \<Rightarrow> string \<Rightarrow> fsnode option \<Rightarrow> bool" where
  "article_exists article_id output_dir tree =
     article_exists_loop article_id (os_walk output_dir tree)"

text \<open>
  Two readings of a directory tree, to state what the check looks at:
  \<open>dir_paths\<close> lists the path of the directory itself and of every directory below
  it; \<open>names_under\<close> lists the names of the directories and files below it.
\<close>

fun names_under :: "fsnode \<Rightarrow> string list"
  and names_of_entries :: "(string \<times> fsnode) list \<Rightarrow> string list" where
  "names_under File = []"
| "names_under (Dir entries) = names_of_entries entries"
| "names_of_entries [] = []"
| "names_of_entries ((name, child) # rest) = name # names_under child @ names_of_entries rest"

fun dir_paths :: "string \<Rightarrow> fsnode \<Rightarrow> string list"
  and subdir_paths :: "string \<Rightarrow> (string \<times> fsnode) list \<Rightarrow> string list" where
  "dir_paths dirpath File = []"
| "dir_paths dirpath (Dir entries) = dirpath # subdir_paths dirpath entries"
| "subdir_paths dirpath [] = []"
| "subdir_paths dirpath ((name, child) # rest) =
     dir_paths (path_join dirpath name) child @ subdir_paths dirpath rest"

subsection \<open>One URL\<close>

text \<open>
  The fetch unit is the class \<open>ZhihuParser\<close> of \<open>main_zhihu\<close>, which is not part of
  these sources: it is a parameter. Constructing a parser from the cookies, the
  flag \<open>keep_logs\<close> and the two directories returns the parser or raises; the parser
  is its method \<open>judge_type\<close>, which returns or raises on a URL. The calls made to
  the unit are recorded in order.
\<close>

type_synonym parser = "string \<Rightarrow> unit result"

type_synonym parser_class = "string \<Rightarrow> bool \<Rightarrow> string \<Rightarrow> string \<Rightarrow> parser result"

datatype call =
    Call_process_single_url string
  | Call_ZhihuParser string bool string string
  | Call_judge_type string

type_synonym outcome = "string \<times> bool \<times> string option"

definition process_single_url ::
    "parser_class \<Rightarrow> fsnode option \<Rightarrow> string \<Rightarrow> string \<Rightarrow> string \<Rightarrow> outcome result \<times> call list" where
  \<comment> \<open>\<open>tree\<close> is what \<open>output_dir\<close> names when the URL is processed\<close>
  "process_single_url ZhihuParser tree url cookies output_dir =
     (case get_article_id url of
        None \<Rightarrow> (Return (url, False, Some ''Invalid URL format''), [])
      | Some article_id \<Rightarrow>
          if article_id = [] then (Return (url, False, Some ''Invalid URL format''), [])
          else if article_exists article_id output_dir tree
          then (Return (url, True, Some ''Article already exists''), [])
          else
            (case ZhihuParser cookies False TEMP_DIR output_dir of
               Raise e \<Rightarrow> (Raise e, [Call_ZhihuParser cookies False TEMP_DIR output_dir])
             | Return parser \<Rightarrow>
                 (case parser url of
                    Return u \<Rightarrow>
                      (Return (url, True, None),
                       [Call_ZhihuParser cookies False TEMP_DIR output_dir, Call_judge_type url])
                  | Raise (Exception msg) \<Rightarrow>
                      (Return (url, False, Some msg),
                       [Call_ZhihuParser cookies False TEMP_DIR output_dir, Call_judge_type url])
                  | Raise e \<Rightarrow>
                      (Raise e,
                       [Call_ZhihuParser cookies False TEMP_DIR output_dir, Call_judge_type url]))))"

subsection \<open>A list of URLs\<close>

text \<open>
  The pool runs \<open>process_single_url\<close> once on every URL; \<open>imap_unordered\<close> hands the
  results over as the workers complete them. \<open>completion\<close> lists the positions of
  the URLs in that order, and \<open>sees i\<close> is the fetch unit and the output directory
  as the worker meets them at position \<open>i\<close>. A worker hands over what the call
  returns, and an \<open>Exception\<close> that it raises: the loop that reads the results raises
  that exception again, which ends it. What is no \<open>Exception\<close> (\<open>SystemExit\<close>,
  \<open>KeyboardInterrupt\<close>) ends the worker instead, and its result is lost: the loop
  reads the results that do arrive and then waits for the lost one for ever, unless
  an exception ended it before. A call that does not return is the value \<open>None\<close>;
  \<open>lost\<close> says that a result was lost.
\<close>

type_synonym counts = "nat \<times> nat \<times> nat \<times> (string \<times> string option) list"

fun collect ::
    "(outcome result \<times> call list) list \<Rightarrow> counts \<Rightarrow> bool \<Rightarrow> call list
       \<Rightarrow> counts result option \<times> call list" where
  \<comment> \<open>\<open>for url, success, error in tasks\<close>, on the counters and \<open>failed_urls\<close>\<close>
  "collect [] acc lost calls = (if lost then None else Some (Return acc), calls)"
| "collect ((Raise (Exception msg), cs) # rest) acc lost calls =
     (Some (Raise (Exception msg)), calls @ cs)"
| "collect ((Raise (SystemExit code), cs) # rest) acc lost calls =
     collect rest acc True (calls @ cs)"
| "collect ((Raise (BaseException msg), cs) # rest) acc lost calls =
     collect rest acc True (calls @ cs)"
| "collect ((Return (url, success, error), cs) # rest) acc lost calls =
     (case acc of (success_count, failure_count, skipped_count, failed_urls) \<Rightarrow>
        if success then
          (if error = Some ''Article already exists''
           then collect rest (success_count, failure_count, skipped_count + 1, failed_urls)
                  lost (calls @ cs)
           else collect rest (success_count + 1, failure_count, skipped_count, failed_urls)
                  lost (calls @ cs))
        else collect rest
               (success_count, failure_count + 1, skipped_count, failed_urls @ [(url, error)])
               lost (calls @ cs))"

definition run_task ::
    "(nat \<Rightarrow> parser_class \<times> fsnode option) \<Rightarrow> string list \<Rightarrow> string \<Rightarrow> string \<Rightarrow> nat
       \<Rightarrow> outcome result \<times> call list" where
  \<comment> \<open>\<open>process_func\<close> applied by a worker to the URL at position \<open>i\<close>\<close>
  "run_task sees urls cookies output_dir i =
     (case process_single_url (fst (sees i)) (snd (sees i)) (urls ! i) cookies output_dir of
        (r, cs) \<Rightarrow> (r, Call_process_single_url (urls ! i) # cs))"

definition process_urls ::
    "(nat \<Rightarrow> parser_class \<times> fsnode option) \<Rightarrow> nat list \<Rightarrow> string list \<Rightarrow> string \<Rightarrow> string
       \<Rightarrow> counts result option \<times> call list" where
  "process_urls sees completion urls cookies output_dir =
     collect (map (run_task sees urls cookies output_dir) completion) (0, 0, 0, []) False []"

definition completes :: "nat list \<Rightarrow> 'a list \<Rightarrow> bool" where
  \<comment> \<open>every position of the list stands once in the order of completion (a lost
      result where its worker ended)\<close>
  "completes completion urls =
     (distinct completion \<and> set completion = {0..<length urls})"

subsection \<open>The batch\<close>

definition read_urls_from_file :: "string list \<Rightarrow> string list" where
  \<comment> \<open>on the lines of the file\<close>
  "read_urls_from_file lines = map str_strip (filter (\<lambda>line. str_strip line \<noteq> []) lines)"

definition read_cookies_from_file :: "string option \<Rightarrow> string result" where
  \<comment> \<open>on the content of the file, \<open>None\<close> when the file does not exist\<close>
  "read_cookies_from_file file =
     (case file of
        None \<Rightarrow> Raise (SystemExit 1)
      | Some content \<Rightarrow>
          (let cookies = str_strip content in
           if cookies = [] then Raise (SystemExit 1) else Return cookies))"

record batch_env =
  cookies_file :: "string option"
  url_files :: "(string \<times> string list) list"
  batch_sees :: "string \<Rightarrow> nat \<Rightarrow> parser_class \<times> fsnode option"
  batch_completion :: "string \<Rightarrow> nat list"

text \<open>
  \<open>cookies_file\<close> is the content of \<open>cookies.txt\<close>; \<open>url_files\<close> are the files that
  \<open>get_url_files\<close> finds, each the stem of its name and its lines; \<open>batch_sees\<close> and
  \<open>batch_completion\<close> give \<open>sees\<close> and \<open>completion\<close> of \<open>process_urls\<close> for each output
  directory. Console
  output and the making and clearing of the directories are left out.
\<close>

definition process_url_file ::
    "batch_env \<Rightarrow> string \<times> string list \<Rightarrow> string
       \<Rightarrow> (nat \<times> nat \<times> nat) result option \<times> call list" where
  "process_url_file env url_file cookies =
     (let output_dir = path_join EXTRACTED_DIR (fst url_file);
          urls = read_urls_from_file (snd url_file)
      in case process_urls (batch_sees env output_dir) (batch_completion env output_dir) urls cookies output_dir of
           (None, calls) \<Rightarrow> (None, calls)
         | (Some (Raise e), calls) \<Rightarrow> (Some (Raise e), calls)
         | (Some (Return (success_count, failure_count, skipped_count, failed_urls)), calls) \<Rightarrow>
             (Some (Return (success_count, failure_count, skipped_count)), calls))"

fun main_loop ::
    "batch_env \<Rightarrow> (string \<times> string list) list \<Rightarrow> string \<Rightarrow> nat \<times> nat \<times> nat \<Rightarrow> call list
       \<Rightarrow> (nat \<times> nat \<times> nat) result option \<times> call list" where
  \<comment> \<open>\<open>for url_file in url_files\<close>, on the three totals\<close>
  "main_loop env [] cookies totals calls = (Some (Return totals), calls)"
| "main_loop env (url_file # rest) cookies totals calls =
     (case totals of (total_success, total_failure, total_skipped) \<Rightarrow>
        (case process_url_file env url_file cookies of
           (None, cs) \<Rightarrow> (None, calls @ cs)
         | (Some (Raise e), cs) \<Rightarrow> (Some (Raise e), calls @ cs)
         | (Some (Return (success, failure, skipped)), cs) \<Rightarrow>
             main_loop env rest cookies
               (total_success + success, total_failure + failure, total_skipped + skipped)
               (calls @ cs)))"

definition batch_main :: "batch_env \<Rightarrow> (nat \<times> nat \<times> nat) result option \<times> call list" where
  \<comment> \<open>\<open>main\<close> of the source: how it ends (\<open>None\<close> when it does not), and the calls it
      made for the items\<close>
  "batch_main env =
     (case read_cookies_from_file (cookies_file env) of
        Raise e \<Rightarrow> (Some (Raise e), [])
      | Return cookies \<Rightarrow>
          if url_files env = [] then (Some (Raise (SystemExit 1)), [])
          else main_loop env (url_files env) cookies (0, 0, 0) [])"


section \<open>Inputs of the examples\<close>

text \<open>
  Four fetch units: one that completes on every URL, one whose \<open>judge_type\<close> raises
  an \<open>Exception\<close>, one whose \<open>judge_type\<close> leaves through \<open>sys.exit(1)\<close>, and one
  whose constructor raises.
\<close>

definition unit_ok :: parser_class where
  "unit_ok cookies keep_logs temp_dir output_dir = Return (\<lambda>url. Return ())"


definition unit_exiting :: parser_class where
  "unit_exiting cookies keep_logs temp_dir output_dir = Return (\<lambda>url. Raise (SystemExit 1))"

definition unit_unconstructible :: parser_class where
  "unit_unconstructible cookies keep_logs temp_dir output_dir =
     Raise (Exception ''cannot create the output directory'')"

text \<open>
  Three runs of the batch: without \<open>cookies.txt\<close>, with a \<open>cookies.txt\<close> of a space
  and a newline, and without a URL file.
\<close>

definition env_no_cookies :: batch_env where
  "env_no_cookies = \<lparr>cookies_file = None,
     url_files = [(''tech'', [''https://zhuanlan.zhihu.com/p/12345''])],
     batch_sees = (\<lambda>output_dir i. (unit_ok, Some (Dir []))), batch_completion = (\<lambda>output_dir. [0])\<rparr>"

definition env_blank_cookies :: batch_env where
  "env_blank_cookies = \<lparr>cookies_file = Some [CHR '' '', CHR 0x0A],
     url_files = [(''tech'', [''https://zhuanlan.zhihu.com/p/12345''])],
     batch_sees = (\<lambda>output_dir i. (unit_ok, Some (Dir []))), batch_completion = (\<lambda>output_dir. [0])\<rparr>"

definition env_no_url_files :: batch_env where
  "env_no_url_files = \<lparr>cookies_file = Some ''z_c0=abc'',
     url_files = [],
     batch_sees = (\<lambda>output_dir i. (unit_ok, Some (Dir []))), batch_completion = (\<lambda>output_dir. [0])\<rparr>"


text \<open>
  A list of three URLs: an article that the output directory already holds, a
  profile page, and an article it does not hold; and workers that meet the unit
  that completes and that output directory.
\<close>

definition three_urls :: "string list" where
  "three_urls = [''https://zhuanlan.zhihu.com/p/12345'', ''https://www.zhihu.com/people/someone'',
     ''https://zhuanlan.zhihu.com/p/67890'']"

definition sees_12345 :: "nat \<Rightarrow> parser_class \<times> fsnode option" where
  "sees_12345 i = (unit_ok, Some (Dir [(''title_12345'', Dir [])]))"

text \<open>
  Workers that meet an empty output directory and the unit whose constructor
  raises, or the unit that leaves through \<open>sys.exit(1)\<close>.
\<close>

definition sees_unconstructible :: "nat \<Rightarrow> parser_class \<times> fsnode option" where
  "sees_unconstructible i = (unit_unconstructible, Some (Dir []))"

definition sees_exiting :: "nat \<Rightarrow> parser_class \<times> fsnode option" where
  "sees_exiting i = (unit_exiting, Some (Dir []))"


text \<open>
  A category directory of three files: a second page with two title links, a text
  file, and a first page with a dated \<open>meta\<close> URL and two title links.
\<close>

definition two_pages :: "(string \<times> soup) list" where
  "two_pages =
     [(''page2.HTML'',
        [Tag ''a'' [(''target'', ''_blank''), (''data-za-detail-view-element_name'', ''Title''),
                    (''href'', ''//zhuanlan.zhihu.com/p/2'')] [],
         Tag ''a'' [(''target'', ''_blank''), (''data-za-detail-view-element_name'', ''Title''),
                    (''href'', ''https://zhuanlan.zhihu.com/p/1'')] []]),
      (''notes.txt'', []),
      (''page1.html'',
        [Tag ''div'' []
           [Tag ''meta'' [(''itemprop'', ''url''), (''content'', ''//zhuanlan.zhihu.com/p/1'')] [],
            NavigableString '' '',
            Tag ''meta'' [(''itemprop'', ''datePublished''), (''content'', ''2024-01-01'')] [],
            Tag ''a'' [(''target'', ''_blank''), (''data-za-detail-view-element_name'', ''Title''),
                       (''href'', ''//zhuanlan.zhihu.com/p/1'')] [],
            Tag ''a'' [(''target'', ''_blank''), (''data-za-detail-view-element_name'', ''Title''),
                       (''href'', ''//zhuanlan.zhihu.com/p/3'')] []]])]"


section \<open>Properties of the string operations\<close>

lemma str_startswith_iff: "str_startswith s p \<longleftrightarrow> (\<exists>q. s = p @ q)"
  unfolding str_startswith_def
  by (metis append_eq_conv_conj append_take_drop_id)

lemma str_in_iff: "str_in sub s \<longleftrightarrow> (\<exists>p q. s = p @ sub @ q)"
proof (induction s)
  case Nil
  show ?case by simp
next
  case (Cons c cs)
  show ?case
  proof
    assume "str_in sub (c # cs)"
    then consider "str_startswith (c # cs) sub" | "str_in sub cs" by auto
    then show "\<exists>p q. c # cs = p @ sub @ q"
    proof cases
      case 1
      then obtain q where "c # cs = sub @ q" by (auto simp: str_startswith_iff)
      then have "c # cs = [] @ sub @ q" by simp
      then show ?thesis by blast
    next
      case 2
      then obtain p q where "cs = p @ sub @ q" using Cons.IH by auto
      then have "c # cs = (c # p) @ sub @ q" by simp
      then show ?thesis by blast
    qed
  next
    assume "\<exists>p q. c # cs = p @ sub @ q"
    then obtain p q where pq: "c # cs = p @ sub @ q" by auto
    show "str_in sub (c # cs)"
    proof (cases p)
      case Nil
      then have "c # cs = sub @ q" using pq by simp
      then have "str_startswith (c # cs) sub" unfolding str_startswith_iff by blast
      then show ?thesis by simp
    next
      case (Cons a p')
      then have "cs = p' @ sub @ q" using pq by simp
      then show ?thesis using Cons.IH by auto
    qed
  qed
qed

lemma split_from_not_Nil: "split_from sep cur s \<noteq> []"
  by (induction sep cur s rule: split_from.induct) auto

lemma unbordered_no_straddle:
  assumes "unbordered sep" and "xs \<noteq> []" and "length xs < length sep"
  shows "\<not> str_startswith (xs @ sep @ t) sep"
proof
  assume "str_startswith (xs @ sep @ t) sep"
  then have eq: "take (length sep) (xs @ sep @ t) = sep" by (simp add: str_startswith_def)
  let ?k = "length sep - length xs"
  have pos: "0 < length xs" using assms(2) by simp
  have lt: "?k < length sep" using pos assms(3) by arith
  have "1 \<le> ?k" using assms(3) by arith
  then have k: "?k \<in> set [1..<length sep]" using lt by simp
  have "drop (length xs) (take (length sep) (xs @ sep @ t)) = take ?k sep"
    using assms(3) lt by (simp add: drop_take)
  then have "drop (length xs) sep = take ?k sep" unfolding eq .
  moreover have "length sep - ?k = length xs" using assms(3) by arith
  ultimately have "take ?k sep = drop (length sep - ?k) sep" by (simp only:)
  moreover have "take ?k sep \<noteq> drop (length sep - ?k) sep"
    using assms(1) k unfolding unbordered_def list_all_iff by blast
  ultimately show False by simp
qed

lemma split_from_last:
  assumes "sep \<noteq> []" and "unbordered sep"
  shows "last (split_from sep cur (xs @ sep @ t)) = last (split_from sep [] t)"
proof (induction xs arbitrary: cur rule: length_induct)
  case (1 xs)
  show ?case
  proof (cases xs)
    case Nil
    obtain c cs where sep: "sep = c # cs" using assms(1) by (cases sep) auto
    have "str_startswith (sep @ t) sep" by (simp add: str_startswith_def)
    then have "split_from sep cur (sep @ t) = cur # split_from sep [] t"
      using sep by (simp del: drop_eq_Nil add: str_startswith_def)
    then show ?thesis using Nil by (simp add: split_from_not_Nil)
  next
    case (Cons x xs')
    show ?thesis
    proof (cases "str_startswith (xs @ sep @ t) sep")
      case True
      have "xs \<noteq> []" using Cons by simp
      then have "\<not> length xs < length sep"
        using unbordered_no_straddle[OF assms(2), of xs t] True by blast
      then have len: "length sep \<le> length xs" by simp
      have d: "drop (length sep) (xs @ sep @ t) = drop (length sep) xs @ sep @ t"
        using len by simp
      have shorter: "length (drop (length sep) xs) < length xs"
        using assms(1) Cons by simp
      have "split_from sep cur (xs @ sep @ t) = cur # split_from sep [] (drop (length sep) xs @ sep @ t)"
        using True assms(1) Cons d by simp
      then show ?thesis using 1 shorter by (simp add: split_from_not_Nil)
    next
      case False
      then have "split_from sep cur (xs @ sep @ t) = split_from sep (cur @ [x]) (xs' @ sep @ t)"
        using Cons by simp
      then show ?thesis using 1 Cons by simp
    qed
  qed
qed

lemma ub1: "unbordered ''zhuanlan.zhihu.com/p/''" by (simp add: unbordered_def upt_rec)
lemma ub2: "unbordered ''answer/''" by (simp add: unbordered_def upt_rec)
lemma ub3: "unbordered ''zvideo/''" by (simp add: unbordered_def upt_rec)
lemma ub4: "unbordered ''column/''" by (simp add: unbordered_def upt_rec)

lemma str_endswith_iff: "str_endswith s p \<longleftrightarrow> (\<exists>q. s = q @ p)"
proof
  assume "str_endswith s p"
  then have "s = take (length s - length p) s @ p"
    unfolding str_endswith_def by (metis append_take_drop_id)
  then show "\<exists>q. s = q @ p" by blast
next
  assume "\<exists>q. s = q @ p"
  then show "str_endswith s p" by (auto simp: str_endswith_def)
qed

lemma split_from_absent: "\<not> str_in sep s \<Longrightarrow> split_from sep cur s = [cur @ s]"
proof (induction s arbitrary: cur)
  case Nil
  show ?case by simp
next
  case (Cons c cs)
  then have "\<not> str_startswith (c # cs) sep" and "\<not> str_in sep cs" by auto
  then show ?case using Cons.IH[of "cur @ [c]"] by simp
qed

lemma str_split_absent: "\<not> str_in sep s \<Longrightarrow> str_split s sep = [s]"
  by (simp add: str_split_def split_from_absent)

lemma str_split_last:
  assumes "sep \<noteq> []" and "unbordered sep" and "\<not> str_in sep t"
  shows "last (str_split (pre @ sep @ t) sep) = t"
  using split_from_last[OF assms(1,2), of "[]" pre t] assms(3)
  by (simp add: str_split_def split_from_absent)

lemma hd_split_slash: "\<not> str_in ''/'' t \<Longrightarrow> hd (str_split t ''/'') = t"
  by (simp add: str_split_absent)

lemma id_after_marker:
  assumes "sep \<noteq> []" and "unbordered sep" and "\<not> str_in sep t" and "\<not> str_in ''/'' t"
  shows "hd (str_split (last (str_split (pre @ sep @ t) sep)) ''/'') = t"
  using str_split_last[OF assms(1,2,3)] assms(4) by (simp add: hd_split_slash)










section \<open>Normalization\<close>

lemma isspace_slash: "\<not> isspace (CHR ''/'')"
  by (simp add: isspace_def)

lemma strip_keeps_slashes:
  assumes "str_startswith raw ''//''"
  shows "str_startswith (str_strip raw) ''//''"
proof -
  obtain t where raw: "raw = ''//'' @ t" using assms unfolding str_startswith_iff by blast
  have front: "dropWhile isspace raw = raw" unfolding raw by (simp add: isspace_slash)
  have "rev raw = rev t @ ''//''" unfolding raw by simp
  then have "\<exists>u. dropWhile isspace (rev raw) = u @ ''//''"
    by (cases "\<exists>x \<in> set (rev t). \<not> isspace x")
       (auto simp: dropWhile_append isspace_slash dropWhile_append1 dropWhile_append2
             simp del: set_rev)
  then obtain u where "dropWhile isspace (rev raw) = u @ ''//''" by blast
  then have "str_strip raw = ''//'' @ rev u" by (simp add: str_strip_def front)
  then show ?thesis unfolding str_startswith_iff by blast
qed

text \<open>
  Claim C3 says that a raw string that starts with \<open>//\<close> gets \<open>https:\<close> prepended and
  every other one is returned trimmed. The test for \<open>//\<close> comes after the trimming: a
  string with a blank before \<open>//\<close> does not start with \<open>//\<close> and yet gets the prefix,
  and one that starts with \<open>//\<close> and ends with a blank loses the blank.
\<close>

theorem normalize_url_not_as_stated:
  "\<not> str_startswith '' //zhuanlan.zhihu.com/p/1'' ''//''
   \<and> normalize_url '' //zhuanlan.zhihu.com/p/1'' \<noteq> str_strip '' //zhuanlan.zhihu.com/p/1''
   \<and> str_startswith ''//zhuanlan.zhihu.com/p/1 '' ''//''
   \<and> normalize_url ''//zhuanlan.zhihu.com/p/1 '' \<noteq> ''https:'' @ ''//zhuanlan.zhihu.com/p/1 ''"
  by (simp add: normalize_url_def str_strip_def isspace_def str_startswith_def)

text \<open>
  Claim C3, amended. \<open>normalize\<close> trims the raw string; when the trimmed string
  starts with \<open>//\<close>, as it does whenever the raw one does, the result is \<open>https:\<close>
  followed by the trimmed string, otherwise it is the trimmed string. On a raw
  string without blanks at its ends (the callers pass stripped text) this is the
  claim as stated.
\<close>

theorem normalize_url_trims_then_prefixes:
  "(str_startswith (str_strip raw) ''//'' \<longrightarrow> normalize_url raw = ''https:'' @ str_strip raw)
   \<and> (\<not> str_startswith (str_strip raw) ''//'' \<longrightarrow> normalize_url raw = str_strip raw)
   \<and> (str_startswith raw ''//'' \<longrightarrow> normalize_url raw = ''https:'' @ str_strip raw)
   \<and> (str_strip raw = raw \<longrightarrow>
        normalize_url raw = (if str_startswith raw ''//'' then ''https:'' @ raw else raw))"
  using strip_keeps_slashes[of raw] by (simp add: normalize_url_def Let_def)

text \<open>A scheme-relative URL, an absolute one, and one with blanks around it.\<close>

theorem normalize_url_trims_then_prefixes_witness:
  "normalize_url ''//www.zhihu.com/question/1/answer/2'' = ''https://www.zhihu.com/question/1/answer/2''
   \<and> normalize_url ''https://zhuanlan.zhihu.com/p/12345'' = ''https://zhuanlan.zhihu.com/p/12345''
   \<and> normalize_url '' //zhuanlan.zhihu.com/p/1 '' = ''https://zhuanlan.zhihu.com/p/1''"
proof -
  have a: "str_strip ''//www.zhihu.com/question/1/answer/2'' = ''//www.zhihu.com/question/1/answer/2''"
    by (simp add: str_strip_def isspace_def)
  have b: "str_strip ''https://zhuanlan.zhihu.com/p/12345'' = ''https://zhuanlan.zhihu.com/p/12345''"
    by (simp add: str_strip_def isspace_def)
  have c: "str_strip '' //zhuanlan.zhihu.com/p/1 '' = ''//zhuanlan.zhihu.com/p/1''"
    by (simp add: str_strip_def isspace_def)
  show ?thesis
    using normalize_url_trims_then_prefixes[of "''//www.zhihu.com/question/1/answer/2''"]
      normalize_url_trims_then_prefixes[of "''https://zhuanlan.zhihu.com/p/12345''"]
      normalize_url_trims_then_prefixes[of "'' //zhuanlan.zhihu.com/p/1 ''"]
    by (simp add: a b c str_startswith_def)
qed


section \<open>The URLs of a category\<close>

lemma first_occurrences_snoc:
  "first_occurrences (xs @ [x]) = first_occurrences xs @ (if x \<in> set xs then [] else [x])"
proof -
  have "filter (\<lambda>i. (xs @ [x]) ! i \<notin> set (take i (xs @ [x]))) [0..<length xs]
          = filter (\<lambda>i. xs ! i \<notin> set (take i xs)) [0..<length xs]"
    by (rule filter_cong) (auto simp: nth_append)
  moreover have "map (\<lambda>i. (xs @ [x]) ! i) (filter (\<lambda>i. xs ! i \<notin> set (take i xs)) [0..<length xs])
          = map (\<lambda>i. xs ! i) (filter (\<lambda>i. xs ! i \<notin> set (take i xs)) [0..<length xs])"
    by (rule map_cong) (auto simp: nth_append)
  ultimately show ?thesis by (simp add: first_occurrences_def)
qed

lemma first_occurrences_Nil: "first_occurrences [] = []"
  by (simp add: first_occurrences_def)

lemma set_first_occurrences: "set (first_occurrences xs) = set xs"
  by (induction xs rule: rev_induct) (auto simp: first_occurrences_snoc first_occurrences_Nil)

lemma distinct_first_occurrences: "distinct (first_occurrences xs)"
  by (induction xs rule: rev_induct)
     (auto simp: first_occurrences_snoc first_occurrences_Nil set_first_occurrences)

lemma foldl_add_url:
  "foldl add_url (seen, out) xs
     = (seen \<union> set xs, out @ filter (\<lambda>u. u \<notin> seen) (first_occurrences xs))"
  by (induction xs rule: rev_induct)
     (auto simp: first_occurrences_snoc first_occurrences_Nil add_url_def)

lemma loop_body_add:
  "loop_body name attrs sibs st = foldl add_url st (tag_urls name attrs sibs)"
  by (cases st) (simp add: loop_body_def tag_urls_def add_url_def Let_def)

lemma visit_add:
  "visit n sibs st = foldl add_url st (node_urls n sibs)"
  "visit_all ns st = foldl add_url st (document_urls ns)"
  by (induction n sibs st and ns st rule: visit_visit_all.induct) (simp_all add: loop_body_add)

lemma extract_urls_from_soup_eq:
  "extract_urls_from_soup soup seen
     = (filter (\<lambda>u. u \<notin> seen) (first_occurrences (document_urls soup)),
        seen \<union> set (document_urls soup))"
  by (simp add: extract_urls_from_soup_def visit_add foldl_add_url)

lemma merge_files_add:
  "merge_files files seen merged
     = snd (foldl add_url (seen, merged) (concat (map (\<lambda>(fn, soup). document_urls soup) files)))"
proof (induction files seen merged rule: merge_files.induct)
  case (1 seen merged)
  show ?case by simp
next
  case (2 fn soup rest seen merged)
  have "foldl add_url (seen, merged) (document_urls soup)
          = (seen \<union> set (document_urls soup),
             merged @ filter (\<lambda>u. u \<notin> seen) (first_occurrences (document_urls soup)))"
    by (rule foldl_add_url)
  then show ?case using 2 by (simp add: extract_urls_from_soup_eq)
qed

lemma category_urls_eq:
  "category_urls listing
     = first_occurrences (concat (map (\<lambda>(fn, soup). document_urls soup) (html_files listing)))"
  by (simp add: category_urls_def merge_files_add foldl_add_url)

text \<open>
  Claim C7. The list written for a category has no duplicate entry, and it is the
  list of the first occurrences of the URLs found in the HTML documents of the
  category, the documents taken in the sorted order of their file names and each
  document read in document order: every URL stands where it occurs first.
\<close>

theorem category_urls_distinct_first_seen:
  "distinct (category_urls listing)
   \<and> category_urls listing
       = first_occurrences (concat (map (\<lambda>(fn, soup). document_urls soup) (html_files listing)))
   \<and> sorted (map fst (html_files listing))
   \<and> set (html_files listing)
       = {(fn, soup). (fn, soup) \<in> set listing \<and> str_endswith (str_lower fn) ''.html''}"
proof -
  have "sorted (map fst (html_files listing))" by (simp add: html_files_def)
  moreover have "set (html_files listing)
       = {(fn, soup). (fn, soup) \<in> set listing \<and> str_endswith (str_lower fn) ''.html''}"
    by (auto simp: html_files_def)
  ultimately show ?thesis
    by (simp add: category_urls_eq distinct_first_occurrences)
qed

text \<open>
  The three files: \<open>page1.html\<close> is read before \<open>page2.HTML\<close>, the text file is not
  read, and the URL that both pages hold is listed once, first.
\<close>

lemma html_files_two_pages:
  "map fst (html_files two_pages) = [''page1.html'', ''page2.HTML'']"
  by code_simp

lemma category_urls_two_pages:
  "category_urls two_pages
     = [''https://zhuanlan.zhihu.com/p/1'', ''https://zhuanlan.zhihu.com/p/3'',
        ''https://zhuanlan.zhihu.com/p/2'']"
  by code_simp

lemma document_urls_two_pages:
  "concat (map (\<lambda>(fn, soup). document_urls soup) (html_files two_pages))
     = [''https://zhuanlan.zhihu.com/p/1'', ''https://zhuanlan.zhihu.com/p/1'',
        ''https://zhuanlan.zhihu.com/p/3'', ''https://zhuanlan.zhihu.com/p/2'',
        ''https://zhuanlan.zhihu.com/p/1'']"
  by code_simp

theorem category_urls_distinct_first_seen_witness:
  "category_urls two_pages
     = [''https://zhuanlan.zhihu.com/p/1'', ''https://zhuanlan.zhihu.com/p/3'',
        ''https://zhuanlan.zhihu.com/p/2'']
   \<and> distinct (category_urls two_pages)
   \<and> category_urls two_pages
       = first_occurrences [''https://zhuanlan.zhihu.com/p/1'', ''https://zhuanlan.zhihu.com/p/1'',
           ''https://zhuanlan.zhihu.com/p/3'', ''https://zhuanlan.zhihu.com/p/2'',
           ''https://zhuanlan.zhihu.com/p/1'']
   \<and> map fst (html_files two_pages) = [''page1.html'', ''page2.HTML'']"
proof -
  note t = category_urls_distinct_first_seen[of two_pages]
  have d: "distinct (category_urls two_pages)" using t by blast
  have "category_urls two_pages
       = first_occurrences (concat (map (\<lambda>(fn, soup). document_urls soup) (html_files two_pages)))"
    using t by blast
  then have f: "category_urls two_pages
       = first_occurrences [''https://zhuanlan.zhihu.com/p/1'', ''https://zhuanlan.zhihu.com/p/1'',
           ''https://zhuanlan.zhihu.com/p/3'', ''https://zhuanlan.zhihu.com/p/2'',
           ''https://zhuanlan.zhihu.com/p/1'']"
    unfolding document_urls_two_pages .
  show ?thesis
    using d f category_urls_two_pages html_files_two_pages by blast
qed


section \<open>Identifier extraction\<close>





section \<open>The check of the output directory\<close>

lemma walk_roots:
  "map fst (walk dirpath t) = dir_paths dirpath t"
  "map fst (walk_subdirs dirpath entries) = subdir_paths dirpath entries"
proof (induction dirpath t and dirpath entries rule: walk_walk_subdirs.induct)
  case (4 dirpath name child rest)
  then show ?case by (cases child) auto
qed auto

lemma article_exists_loop_iff:
  "article_exists_loop article_id triples \<longleftrightarrow> (\<exists>root \<in> set (map fst triples). str_in article_id root)"
  by (induction article_id triples rule: article_exists_loop.induct) auto

text \<open>
  Claim C1 says that \<open>article_exists\<close> holds exactly when the name of some directory
  or file under the output directory contains the identifier. The loop tests the
  \<open>root\<close> of each triple of \<open>os.walk\<close>, a directory path, and never the file names:
  a file named after the identifier is not found; and the first \<open>root\<close> is the output
  directory itself, so an identifier that occurs in its path is found in an empty
  directory.
\<close>

theorem article_exists_ignores_file_names:
  "\<not> article_exists ''12345'' ''zhihu/markdown/tech'' (Some (Dir [(''12345.md'', File)]))
   \<and> ''12345.md'' \<in> set (names_under (Dir [(''12345.md'', File)]))
   \<and> str_in ''12345'' ''12345.md''
   \<and> article_exists ''tech'' ''zhihu/markdown/tech'' (Some (Dir []))
   \<and> names_under (Dir []) = []"
  by (simp add: article_exists_def os_walk_def str_startswith_def)

text \<open>
  Claim C1, amended. \<open>article_exists\<close> holds exactly when the output directory
  exists and the identifier is a substring of the path of the output directory or
  of a directory below it (the paths \<open>os.walk\<close> gives as \<open>root\<close>).
\<close>

theorem article_exists_checks_directory_paths:
  "article_exists article_id output_dir tree \<longleftrightarrow>
     (\<exists>t root p q. tree = Some t \<and> root \<in> set (dir_paths output_dir t)
        \<and> root = p @ article_id @ q)"
proof (cases tree)
  case None
  then show ?thesis by (simp add: article_exists_def os_walk_def)
next
  case (Some t)
  have "article_exists article_id output_dir (Some t) \<longleftrightarrow>
     (\<exists>root \<in> set (dir_paths output_dir t). \<exists>p q. root = p @ article_id @ q)"
    by (simp only: article_exists_def os_walk_def option.case article_exists_loop_iff
          walk_roots str_in_iff)
  then show ?thesis using Some by blast
qed

text \<open>A directory named after the identifier, beside a file.\<close>

theorem article_exists_checks_directory_paths_witness:
  "article_exists ''12345'' ''zhihu/markdown/tech''
      (Some (Dir [(''notes.txt'', File), (''title_12345'', Dir [(''index.md'', File)])]))
   \<and> ''zhihu/markdown/tech/title_12345''
       \<in> set (dir_paths ''zhihu/markdown/tech''
               (Dir [(''notes.txt'', File), (''title_12345'', Dir [(''index.md'', File)])]))
   \<and> ''zhihu/markdown/tech/title_12345'' = ''zhihu/markdown/tech/title_'' @ ''12345'' @ ''''"
proof -
  have m: "''zhihu/markdown/tech/title_12345''
       \<in> set (dir_paths ''zhihu/markdown/tech''
               (Dir [(''notes.txt'', File), (''title_12345'', Dir [(''index.md'', File)])]))"
    by (simp add: path_join_def)
  have e: "''zhihu/markdown/tech/title_12345'' = ''zhihu/markdown/tech/title_'' @ ''12345'' @ ''''"
    by simp
  have "article_exists ''12345'' ''zhihu/markdown/tech''
      (Some (Dir [(''notes.txt'', File), (''title_12345'', Dir [(''index.md'', File)])]))"
    unfolding article_exists_checks_directory_paths using m e by blast
  then show ?thesis using m e by blast
qed


section \<open>One URL\<close>

lemmas eval_simps = get_article_id_def str_split_def str_startswith_def article_exists_def
  os_walk_def path_join_def

lemma id12345: "get_article_id ''https://zhuanlan.zhihu.com/p/12345'' = Some ''12345''"
  by (simp add: eval_simps)

lemma not_there: "\<not> article_exists ''12345'' ''zhihu/markdown/tech'' (Some (Dir []))"
  by (simp add: eval_simps)

lemma there: "article_exists ''12345'' ''zhihu/markdown/tech'' (Some (Dir [(''title_12345'', Dir [])]))"
  by (simp add: eval_simps)

text \<open>
  Claim C4. When no identifier can be extracted from a URL (\<open>get_article_id\<close> gives
  \<open>None\<close>: no recognized shape), \<open>process_single_url\<close> returns the failure
  \<open>Invalid URL format\<close> for that URL, and it makes no call to the fetch unit,
  whatever the unit and the output directory are.
\<close>

theorem invalid_url_fails_without_fetch:
  assumes "get_article_id url = None"
  shows "process_single_url ZhihuParser tree url cookies output_dir
           = (Return (url, False, Some ''Invalid URL format''), [])"
  using assms by (simp add: process_single_url_def)

text \<open>A profile URL has none of the four shapes.\<close>

theorem invalid_url_fails_without_fetch_witness:
  "get_article_id ''https://www.zhihu.com/people/someone'' = None
   \<and> process_single_url unit_ok (Some (Dir [])) ''https://www.zhihu.com/people/someone''
        ''z_c0=abc'' ''zhihu/markdown/tech''
      = (Return (''https://www.zhihu.com/people/someone'', False, Some ''Invalid URL format''), [])"
proof -
  have h: "get_article_id ''https://www.zhihu.com/people/someone'' = None"
    by (simp add: eval_simps)
  show ?thesis
    using h invalid_url_fails_without_fetch[OF h, of unit_ok "Some (Dir [])" "''z_c0=abc''" "''zhihu/markdown/tech''"]
    by simp
qed

text \<open>
  Claim C5. When the identifier extracted from a URL is found by \<open>article_exists\<close>
  under the output directory, \<open>process_single_url\<close> returns the success
  \<open>Article already exists\<close>, which \<open>process_urls\<close> counts as skipped, and it makes no
  call to the fetch unit. The check is asked about a non-empty identifier only: the
  empty one was refused before (claim C10).
\<close>

theorem existing_article_is_skipped:
  assumes "get_article_id url = Some article_id" and "article_id \<noteq> []"
    and "article_exists article_id output_dir tree"
  shows "process_single_url ZhihuParser tree url cookies output_dir
           = (Return (url, True, Some ''Article already exists''), [])"
  using assms by (simp add: process_single_url_def)

text \<open>The output directory holds a directory whose name ends in the identifier.\<close>

theorem existing_article_is_skipped_witness:
  "get_article_id ''https://zhuanlan.zhihu.com/p/12345'' = Some ''12345''
   \<and> ''12345'' \<noteq> []
   \<and> article_exists ''12345'' ''zhihu/markdown/tech'' (Some (Dir [(''title_12345'', Dir [])]))
   \<and> process_single_url unit_ok (Some (Dir [(''title_12345'', Dir [])]))
        ''https://zhuanlan.zhihu.com/p/12345'' ''z_c0=abc'' ''zhihu/markdown/tech''
      = (Return (''https://zhuanlan.zhihu.com/p/12345'', True, Some ''Article already exists''), [])"
proof -
  have n: "''12345'' \<noteq> []" by simp
  show ?thesis
    using id12345 n there existing_article_is_skipped[OF id12345 n there, of unit_ok "''z_c0=abc''"]
    by simp
qed




lemma last_split_marker_end:
  assumes "sep \<noteq> []" and "unbordered sep"
  shows "hd (str_split (last (str_split (pre @ sep) sep)) ''/'') = []"
proof -
  have "\<not> str_in sep []" using assms(1) by simp
  then have "last (str_split (pre @ sep @ []) sep) = []"
    by (rule str_split_last[OF assms])
  then show ?thesis by (simp add: str_split_def)
qed

lemma id_empty_article:
  assumes "str_endswith url ''zhuanlan.zhihu.com/p/''"
  shows "get_article_id url = Some []"
proof -
  obtain pre where u: "url = pre @ ''zhuanlan.zhihu.com/p/''"
    using assms unfolding str_endswith_iff by blast
  then have "url = pre @ ''zhuanlan.zhihu.com/p/'' @ []" by simp
  then have "str_in ''zhuanlan.zhihu.com/p/'' url" unfolding str_in_iff by blast
  moreover have "hd (str_split (last (str_split url ''zhuanlan.zhihu.com/p/'')) ''/'') = []"
    unfolding u by (rule last_split_marker_end[OF _ ub1]) simp
  ultimately show ?thesis by (simp add: get_article_id_def)
qed

lemma id_empty_answer:
  assumes "\<not> str_in ''zhuanlan.zhihu.com/p/'' url" and "str_in ''question'' url"
    and "str_endswith url ''answer/''"
  shows "get_article_id url = Some []"
proof -
  obtain pre where u: "url = pre @ ''answer/''"
    using assms(3) unfolding str_endswith_iff by blast
  then have "url = pre @ ''answer'' @ ''/''" by simp
  then have "str_in ''answer'' url" unfolding str_in_iff by blast
  moreover have "hd (str_split (last (str_split url ''answer/'')) ''/'') = []"
    unfolding u by (rule last_split_marker_end[OF _ ub2]) simp
  ultimately show ?thesis using assms(1,2) by (auto simp: get_article_id_def)
qed

lemma id_empty_zvideo:
  assumes "\<not> str_in ''zhuanlan.zhihu.com/p/'' url"
    and "\<not> (str_in ''question'' url \<and> str_in ''answer'' url)"
    and "str_endswith url ''zvideo/''"
  shows "get_article_id url = Some []"
proof -
  obtain pre where u: "url = pre @ ''zvideo/''"
    using assms(3) unfolding str_endswith_iff by blast
  then have "url = pre @ ''zvideo'' @ ''/''" by simp
  then have "str_in ''zvideo'' url" unfolding str_in_iff by blast
  moreover have "hd (str_split (last (str_split url ''zvideo/'')) ''/'') = []"
    unfolding u by (rule last_split_marker_end[OF _ ub3]) simp
  ultimately show ?thesis using assms(1,2) by (auto simp: get_article_id_def)
qed

lemma id_empty_column:
  assumes "\<not> str_in ''zhuanlan.zhihu.com/p/'' url"
    and "\<not> (str_in ''question'' url \<and> str_in ''answer'' url)"
    and "\<not> str_in ''zvideo'' url"
    and "str_endswith url ''column/''"
  shows "get_article_id url = Some []"
proof -
  obtain pre where u: "url = pre @ ''column/''"
    using assms(4) unfolding str_endswith_iff by blast
  then have "url = pre @ ''column'' @ ''/''" by simp
  then have "str_in ''column'' url" unfolding str_in_iff by blast
  moreover have "hd (str_split (last (str_split url ''column/'')) ''/'') = []"
    unfolding u by (rule last_split_marker_end[OF _ ub4]) simp
  ultimately show ?thesis using assms(1,2,3) by (auto simp: get_article_id_def)
qed

lemma empty_id_invalid:
  "get_article_id url = Some [] \<Longrightarrow>
     process_single_url ZhihuParser tree url cookies output_dir
       = (Return (url, False, Some ''Invalid URL format''), [])"
  by (simp add: process_single_url_def)

text \<open>
  Claim C10. A URL that ends in the separator of the shape it is taken for
  (\<open>zhuanlan.zhihu.com/p/\<close>; \<open>answer/\<close> for a question URL; \<open>zvideo/\<close>; \<open>column/\<close>), so
  that nothing follows the marker, has the empty identifier, and
  \<open>process_single_url\<close> treats it as it treats a URL of no recognized shape: the
  failure \<open>Invalid URL format\<close>, and no call to the fetch unit.
\<close>

theorem marker_without_identifier_is_invalid:
  assumes "str_endswith url ''zhuanlan.zhihu.com/p/''
     \<or> (\<not> str_in ''zhuanlan.zhihu.com/p/'' url \<and> str_in ''question'' url
          \<and> str_endswith url ''answer/'')
     \<or> (\<not> str_in ''zhuanlan.zhihu.com/p/'' url
          \<and> \<not> (str_in ''question'' url \<and> str_in ''answer'' url)
          \<and> str_endswith url ''zvideo/'')
     \<or> (\<not> str_in ''zhuanlan.zhihu.com/p/'' url
          \<and> \<not> (str_in ''question'' url \<and> str_in ''answer'' url)
          \<and> \<not> str_in ''zvideo'' url \<and> str_endswith url ''column/'')"
  shows "get_article_id url = Some []
     \<and> process_single_url ZhihuParser tree url cookies output_dir
         = (Return (url, False, Some ''Invalid URL format''), [])"
proof -
  have "get_article_id url = Some []"
    using assms id_empty_article id_empty_answer id_empty_zvideo id_empty_column by blast
  then show ?thesis by (simp add: empty_id_invalid)
qed

text \<open>The two URLs of the claim.\<close>

theorem marker_without_identifier_is_invalid_witness:
  "get_article_id ''https://www.zhihu.com/zvideo/'' = Some []
   \<and> process_single_url unit_ok (Some (Dir [])) ''https://www.zhihu.com/zvideo/''
        ''z_c0=abc'' ''zhihu/markdown/tech''
      = (Return (''https://www.zhihu.com/zvideo/'', False, Some ''Invalid URL format''), [])
   \<and> get_article_id ''https://zhuanlan.zhihu.com/p/'' = Some []
   \<and> process_single_url unit_ok (Some (Dir [])) ''https://zhuanlan.zhihu.com/p/''
        ''z_c0=abc'' ''zhihu/markdown/tech''
      = (Return (''https://zhuanlan.zhihu.com/p/'', False, Some ''Invalid URL format''), [])"
proof -
  have a: "\<not> str_in ''zhuanlan.zhihu.com/p/'' ''https://www.zhihu.com/zvideo/''
          \<and> \<not> (str_in ''question'' ''https://www.zhihu.com/zvideo/''
               \<and> str_in ''answer'' ''https://www.zhihu.com/zvideo/'')
          \<and> str_endswith ''https://www.zhihu.com/zvideo/'' ''zvideo/''"
    by (simp add: str_startswith_def str_endswith_def)
  have b: "str_endswith ''https://zhuanlan.zhihu.com/p/'' ''zhuanlan.zhihu.com/p/''"
    by (simp add: str_endswith_def)
  show ?thesis
    using marker_without_identifier_is_invalid[of "''https://www.zhihu.com/zvideo/''" unit_ok
        "Some (Dir [])" "''z_c0=abc''" "''zhihu/markdown/tech''"]
      marker_without_identifier_is_invalid[of "''https://zhuanlan.zhihu.com/p/''" unit_ok
        "Some (Dir [])" "''z_c0=abc''" "''zhihu/markdown/tech''"] a b
    by blast
qed


section \<open>A list of URLs\<close>

lemma process_single_url_keeps_url:
  assumes "fst (process_single_url ZhihuParser tree url cookies output_dir) = Return (u, b, e)"
  shows "u = url"
  using assms
  by (auto simp: process_single_url_def split: option.splits if_splits result.splits exc.splits)

lemma collect_all_returned:
  assumes "\<forall>r \<in> set rs. \<exists>outcome. fst r = Return outcome"
  shows "\<exists>s' f' k' failed'.
           collect rs (s, f, k, failed) False calls
             = (Some (Return (s', f', k', failed')), calls @ concat (map snd rs))
           \<and> s' + f' + k' = s + f + k + length rs
           \<and> f \<le> f' \<and> length failed' = length failed + (f' - f)
           \<and> set failed' \<subseteq> set failed \<union> {(u, e). \<exists>cs. (Return (u, False, e), cs) \<in> set rs}"
  using assms
proof (induction rs arbitrary: s f k failed calls)
  case Nil
  show ?case by simp
next
  case (Cons r rs)
  obtain res cs where r: "r = (res, cs)" by (cases r)
  obtain url success error where res: "res = Return (url, success, error)"
    using Cons.prems r by (cases res) auto
  have rest: "\<forall>r \<in> set rs. \<exists>outcome. fst r = Return outcome" using Cons.prems by simp
  show ?case
  proof (cases success)
    case True
    show ?thesis
    proof (cases "error = Some ''Article already exists''")
      case skipped: True
      from Cons.IH[OF rest, of s f "k + 1" failed "calls @ cs"]
      obtain s' f' k' failed' where
        "collect rs (s, f, k + 1, failed) False (calls @ cs)
           = (Some (Return (s', f', k', failed')), (calls @ cs) @ concat (map snd rs))"
        "s' + f' + k' = s + f + (k + 1) + length rs" "f \<le> f'"
        "length failed' = length failed + (f' - f)"
        "set failed' \<subseteq> set failed \<union> {(u, e). \<exists>cs. (Return (u, False, e), cs) \<in> set rs}"
        by blast
      then show ?thesis using r res True skipped
        by (intro exI[of _ s'] exI[of _ f'] exI[of _ k'] exI[of _ failed']) auto
    next
      case fetched: False
      from Cons.IH[OF rest, of "s + 1" f k failed "calls @ cs"]
      obtain s' f' k' failed' where
        "collect rs (s + 1, f, k, failed) False (calls @ cs)
           = (Some (Return (s', f', k', failed')), (calls @ cs) @ concat (map snd rs))"
        "s' + f' + k' = s + 1 + f + k + length rs" "f \<le> f'"
        "length failed' = length failed + (f' - f)"
        "set failed' \<subseteq> set failed \<union> {(u, e). \<exists>cs. (Return (u, False, e), cs) \<in> set rs}"
        by blast
      then show ?thesis using r res True fetched
        by (intro exI[of _ s'] exI[of _ f'] exI[of _ k'] exI[of _ failed']) auto
    qed
  next
    case False
    from Cons.IH[OF rest, of s "f + 1" k "failed @ [(url, error)]" "calls @ cs"]
    obtain s' f' k' failed' where
      "collect rs (s, f + 1, k, failed @ [(url, error)]) False (calls @ cs)
         = (Some (Return (s', f', k', failed')), (calls @ cs) @ concat (map snd rs))"
      "s' + f' + k' = s + (f + 1) + k + length rs" "f + 1 \<le> f'"
      "length failed' = length (failed @ [(url, error)]) + (f' - (f + 1))"
      "set failed' \<subseteq> set (failed @ [(url, error)]) \<union> {(u, e). \<exists>cs. (Return (u, False, e), cs) \<in> set rs}"
      by blast
    then show ?thesis using r res False
      by (intro exI[of _ s'] exI[of _ f'] exI[of _ k'] exI[of _ failed']) auto
  qed
qed

lemma collect_lost:
  "lost \<Longrightarrow> fst (collect rs acc lost calls) \<noteq> Some (Return x)"
  by (induction rs acc lost calls rule: collect.induct) (auto split: prod.splits if_splits)

lemma collect_raised:
  "\<exists>r \<in> set rs. \<exists>e. fst r = Raise e \<Longrightarrow> fst (collect rs acc lost calls) \<noteq> Some (Return x)"
  by (induction rs acc lost calls rule: collect.induct)
     (auto simp: collect_lost split: prod.splits if_splits)

lemma completes_length: "completes completion urls \<Longrightarrow> length completion = length urls"
  unfolding completes_def by (metis card_atLeastLessThan diff_zero distinct_card)

lemma fst_run_task:
  "fst (run_task sees urls cookies output_dir i)
     = fst (process_single_url (fst (sees i)) (snd (sees i)) (urls ! i) cookies output_dir)"
  by (simp add: run_task_def split: prod.splits)

text \<open>
  Claim C6 says that \<open>process_urls\<close> produces the counts for every list of URLs. It
  produces them only when every call of \<open>process_single_url\<close> returns: an exception
  that escapes a call (claim C2) is raised again by the loop that reads the
  results, and a call that leaves through \<open>sys.exit\<close> loses its result, for which the
  loop waits for ever.
\<close>

theorem process_urls_without_counts:
  "completes [0] [''https://zhuanlan.zhihu.com/p/12345'']
   \<and> process_urls sees_unconstructible [0] [''https://zhuanlan.zhihu.com/p/12345'']
        ''z_c0=abc'' ''zhihu/markdown/tech''
      = (Some (Raise (Exception ''cannot create the output directory'')),
         [Call_process_single_url ''https://zhuanlan.zhihu.com/p/12345'',
          Call_ZhihuParser ''z_c0=abc'' False TEMP_DIR ''zhihu/markdown/tech''])
   \<and> process_urls sees_exiting [0] [''https://zhuanlan.zhihu.com/p/12345'']
        ''z_c0=abc'' ''zhihu/markdown/tech''
      = (None,
         [Call_process_single_url ''https://zhuanlan.zhihu.com/p/12345'',
          Call_ZhihuParser ''z_c0=abc'' False TEMP_DIR ''zhihu/markdown/tech'',
          Call_judge_type ''https://zhuanlan.zhihu.com/p/12345''])"
  using id12345 not_there
  by (simp add: completes_def process_urls_def run_task_def sees_unconstructible_def
        sees_exiting_def process_single_url_def unit_unconstructible_def unit_exiting_def)

text \<open>
  Claim C6, amended. For every list of URLs of which the pool completes every
  position once: when every call of \<open>process_single_url\<close> returns, \<open>process_urls\<close>
  returns, the three counts add up to the number of URLs, \<open>failed_urls\<close> has as many
  entries as the failure count, and every entry is a URL of the list with the
  reason of its failure; and when some call does not return, \<open>process_urls\<close> returns
  no counts.
\<close>

theorem process_urls_counts:
  assumes "completes completion urls"
  shows "((\<forall>i < length urls. \<exists>outcome.
             fst (process_single_url (fst (sees i)) (snd (sees i)) (urls ! i) cookies output_dir)
               = Return outcome)
          \<longrightarrow> (\<exists>success_count failure_count skipped_count failed_urls calls.
                process_urls sees completion urls cookies output_dir
                  = (Some (Return (success_count, failure_count, skipped_count, failed_urls)), calls)
                \<and> success_count + failure_count + skipped_count = length urls
                \<and> length failed_urls = failure_count
                \<and> (\<forall>(url, error) \<in> set failed_urls. \<exists>i < length urls. url = urls ! i
                     \<and> fst (process_single_url (fst (sees i)) (snd (sees i)) (urls ! i)
                              cookies output_dir)
                         = Return (url, False, error))))
       \<and> (\<not> (\<forall>i < length urls. \<exists>outcome.
               fst (process_single_url (fst (sees i)) (snd (sees i)) (urls ! i) cookies output_dir)
                 = Return outcome)
          \<longrightarrow> (\<forall>counts. fst (process_urls sees completion urls cookies output_dir)
                          \<noteq> Some (Return counts)))"
proof (intro conjI impI)
  let ?rs = "map (run_task sees urls cookies output_dir) completion"
  assume returns: "\<forall>i < length urls. \<exists>outcome.
             fst (process_single_url (fst (sees i)) (snd (sees i)) (urls ! i) cookies output_dir)
               = Return outcome"
  have idx: "\<forall>i \<in> set completion. i < length urls"
    using assms by (simp add: completes_def)
  have all: "\<forall>r \<in> set ?rs. \<exists>outcome. fst r = Return outcome"
    using idx returns by (auto simp: fst_run_task)
  from collect_all_returned[OF all, of 0 0 0 "[]" "[]"]
  obtain s' f' k' failed' where c:
    "collect ?rs (0, 0, 0, []) False []
       = (Some (Return (s', f', k', failed')), [] @ concat (map snd ?rs))"
    "s' + f' + k' = 0 + 0 + 0 + length ?rs"
    "length failed' = length ([] :: (string \<times> string option) list) + (f' - 0)"
    "set failed' \<subseteq> set [] \<union> {(u, e). \<exists>cs. (Return (u, False, e), cs) \<in> set ?rs}"
    by blast
  have sum: "s' + f' + k' = length urls" using c(2) completes_length[OF assms] by simp
  have len: "length failed' = f'" using c(3) by simp
  have ent: "\<forall>(url, error) \<in> set failed'. \<exists>i < length urls. url = urls ! i
                \<and> fst (process_single_url (fst (sees i)) (snd (sees i)) (urls ! i) cookies output_dir)
                    = Return (url, False, error)"
  proof (clarify)
    fix url error assume "(url, error) \<in> set failed'"
    then have "(url, error) \<in> {(u, e). \<exists>cs. (Return (u, False, e), cs) \<in> set ?rs}"
      using c(4) by auto
    then obtain cs where "(Return (url, False, error), cs) \<in> set ?rs" by blast
    then obtain i where i: "i \<in> set completion"
      and ri: "run_task sees urls cookies output_dir i = (Return (url, False, error), cs)" by auto
    have f: "fst (process_single_url (fst (sees i)) (snd (sees i)) (urls ! i) cookies output_dir)
               = Return (url, False, error)"
      using ri fst_run_task[of sees urls cookies output_dir i] by simp
    then have "url = urls ! i" by (rule process_single_url_keeps_url)
    then show "\<exists>i < length urls. url = urls ! i
                \<and> fst (process_single_url (fst (sees i)) (snd (sees i)) (urls ! i) cookies output_dir)
                    = Return (url, False, error)"
      using f i idx by blast
  qed
  show "\<exists>success_count failure_count skipped_count failed_urls calls.
                process_urls sees completion urls cookies output_dir
                  = (Some (Return (success_count, failure_count, skipped_count, failed_urls)), calls)
                \<and> success_count + failure_count + skipped_count = length urls
                \<and> length failed_urls = failure_count
                \<and> (\<forall>(url, error) \<in> set failed_urls. \<exists>i < length urls. url = urls ! i
                     \<and> fst (process_single_url (fst (sees i)) (snd (sees i)) (urls ! i)
                              cookies output_dir)
                         = Return (url, False, error))"
    unfolding process_urls_def using c(1) sum len ent by blast
next
  let ?rs = "map (run_task sees urls cookies output_dir) completion"
  assume "\<not> (\<forall>i < length urls. \<exists>outcome.
               fst (process_single_url (fst (sees i)) (snd (sees i)) (urls ! i) cookies output_dir)
                 = Return outcome)"
  then obtain i where i: "i < length urls"
    and n: "\<forall>outcome. fst (process_single_url (fst (sees i)) (snd (sees i)) (urls ! i)
                              cookies output_dir) \<noteq> Return outcome"
    by blast
  then obtain e where
    "fst (process_single_url (fst (sees i)) (snd (sees i)) (urls ! i) cookies output_dir) = Raise e"
    by (cases "fst (process_single_url (fst (sees i)) (snd (sees i)) (urls ! i) cookies output_dir)")
       auto
  then have "fst (run_task sees urls cookies output_dir i) = Raise e" by (simp add: fst_run_task)
  moreover have "i \<in> set completion" using i assms by (simp add: completes_def)
  ultimately have "\<exists>r \<in> set ?rs. \<exists>e. fst r = Raise e" by auto
  then show "\<forall>counts. fst (process_urls sees completion urls cookies output_dir)
                          \<noteq> Some (Return counts)"
    unfolding process_urls_def using collect_raised by blast
qed

text \<open>
  The three URLs, completed in the order third, first, second: one success, one
  failure, one skipped, and the profile page as the only failed URL.
\<close>

lemma three_a: "process_single_url unit_ok (Some (Dir [(''title_12345'', Dir [])]))
     ''https://zhuanlan.zhihu.com/p/12345'' ''z_c0=abc'' ''zhihu/markdown/tech''
   = (Return (''https://zhuanlan.zhihu.com/p/12345'', True, Some ''Article already exists''), [])"
  by (simp add: process_single_url_def eval_simps)

lemma three_b: "process_single_url unit_ok (Some (Dir [(''title_12345'', Dir [])]))
     ''https://www.zhihu.com/people/someone'' ''z_c0=abc'' ''zhihu/markdown/tech''
   = (Return (''https://www.zhihu.com/people/someone'', False, Some ''Invalid URL format''), [])"
  by (simp add: process_single_url_def eval_simps)

lemma three_c: "process_single_url unit_ok (Some (Dir [(''title_12345'', Dir [])]))
     ''https://zhuanlan.zhihu.com/p/67890'' ''z_c0=abc'' ''zhihu/markdown/tech''
   = (Return (''https://zhuanlan.zhihu.com/p/67890'', True, None),
      [Call_ZhihuParser ''z_c0=abc'' False TEMP_DIR ''zhihu/markdown/tech'',
       Call_judge_type ''https://zhuanlan.zhihu.com/p/67890''])"
  by (simp add: process_single_url_def eval_simps unit_ok_def)

theorem process_urls_counts_witness:
  "completes [2, 0, 1] three_urls
   \<and> fst (process_urls sees_12345 [2, 0, 1] three_urls ''z_c0=abc'' ''zhihu/markdown/tech'')
      = Some (Return (1, 1, 1,
          [(''https://www.zhihu.com/people/someone'', Some ''Invalid URL format'')]))"
proof -
  have c: "completes [2, 0, 1] three_urls"
    by (auto simp: completes_def three_urls_def)
  have r: "\<forall>i < length three_urls. \<exists>outcome.
           fst (process_single_url (fst (sees_12345 i)) (snd (sees_12345 i)) (three_urls ! i)
                  ''z_c0=abc'' ''zhihu/markdown/tech'') = Return outcome"
    using three_a three_b three_c
    by (auto simp: three_urls_def sees_12345_def less_Suc_eq)
  have v: "fst (process_urls sees_12345 [2, 0, 1] three_urls ''z_c0=abc'' ''zhihu/markdown/tech'')
      = Some (Return (1, 1, 1,
          [(''https://www.zhihu.com/people/someone'', Some ''Invalid URL format'')]))"
    using three_a three_b three_c
    by (simp add: process_urls_def run_task_def three_urls_def sees_12345_def)
  show ?thesis using process_urls_counts[OF c, of sees_12345 "''z_c0=abc''" "''zhihu/markdown/tech''"] r c v
    by blast
qed


section \<open>The batch\<close>

text \<open>
  Claim C9. When \<open>cookies.txt\<close> does not exist, or its content is empty once stripped,
  or no URL file is found, the batch ends, through \<open>sys.exit(1)\<close>, a non-zero exit
  status, and has made no call for any item: neither \<open>process_single_url\<close> nor the
  fetch unit was called.
\<close>

theorem batch_main_fails_fast:
  assumes "cookies_file env = None
     \<or> (\<exists>content. cookies_file env = Some content \<and> str_strip content = [])
     \<or> url_files env = []"
  shows "batch_main env = (Some (Raise (SystemExit 1)), [])
     \<and> (\<exists>r. fst (batch_main env) = Some r \<and> exit_status r \<noteq> 0)"
proof -
  have "batch_main env = (Some (Raise (SystemExit 1)), [])"
    using assms
    by (auto simp: batch_main_def read_cookies_from_file_def Let_def split: option.splits)
  then show ?thesis by (simp add: exit_status_def)
qed

text \<open>The three runs.\<close>

theorem batch_main_fails_fast_witness:
  "batch_main env_no_cookies = (Some (Raise (SystemExit 1)), [])
   \<and> (\<exists>r. fst (batch_main env_no_cookies) = Some r \<and> exit_status r \<noteq> 0)
   \<and> batch_main env_blank_cookies = (Some (Raise (SystemExit 1)), [])
   \<and> (\<exists>r. fst (batch_main env_blank_cookies) = Some r \<and> exit_status r \<noteq> 0)
   \<and> batch_main env_no_url_files = (Some (Raise (SystemExit 1)), [])
   \<and> (\<exists>r. fst (batch_main env_no_url_files) = Some r \<and> exit_status r \<noteq> 0)"
proof -
  have a: "cookies_file env_no_cookies = None" by (simp add: env_no_cookies_def)
  have b: "\<exists>content. cookies_file env_blank_cookies = Some content \<and> str_strip content = []"
    by (simp add: env_blank_cookies_def str_strip_def isspace_def)
  have c: "url_files env_no_url_files = []" by (simp add: env_no_url_files_def)
  show ?thesis
    using batch_main_fails_fast[of env_no_cookies] batch_main_fails_fast[of env_blank_cookies]
      batch_main_fails_fast[of env_no_url_files] a b c
    by blast
qed

end
